theory Spec2Isabelle
  imports Complex_Main
begin

section \<open>Wave attenuation environments (flow/envs/loop/wave\_attenuation.py)\<close>

text \<open>
  The module defines sibling subclasses of an external base environment. The simulator,
  the vehicle registry and the scenario are external collaborators: they are modelled as
  records holding what their accessors return during one call. Python floats are modelled
  as \<open>real\<close> (rounding and overflow are not modelled); the special values a numpy
  computation can produce without raising are kept apart in \<open>npfloat\<close>.
\<close>

subsection \<open>Errors and numbers\<close>

datatype error = KeyError string | IndexError | ZeroDivisionError | ValueError | TypeError

datatype npfloat = Fin real | PosInf | NegInf | NaN

text \<open>Python's \<open>/\<close> on Python numbers raises on a zero divisor.\<close>

definition py_div :: "real \<Rightarrow> real \<Rightarrow> error + real" where
  "py_div a b = (if b = 0 then Inl ZeroDivisionError else Inr (a / b))"

text \<open>Division of a numpy scalar does not raise: it yields an infinity or nan.\<close>

fun np_div :: "npfloat \<Rightarrow> real \<Rightarrow> npfloat" where
  "np_div (Fin a) b =
     (if b = 0 then (if 0 < a then PosInf else if a < 0 then NegInf else NaN)
      else Fin (a / b))"
| "np_div PosInf b = (if b = 0 then PosInf else if 0 < b then PosInf else NegInf)"
| "np_div NegInf b = (if b = 0 then NegInf else if 0 < b then NegInf else PosInf)"
| "np_div NaN b = NaN"

text \<open>\<open>np.mean\<close> and \<open>np.std\<close>: nan on an empty array.\<close>

definition mean :: "real list \<Rightarrow> real" where
  "mean xs = sum_list xs / real (length xs)"

definition np_mean :: "real list \<Rightarrow> npfloat" where
  "np_mean xs = (if xs = [] then NaN else Fin (mean xs))"

definition np_std :: "real list \<Rightarrow> npfloat" where
  "np_std xs =
     (if xs = [] then NaN
      else Fin (sqrt (mean (map (\<lambda>x. (x - mean xs)\<^sup>2) xs))))"

definition np_clip :: "real \<Rightarrow> real \<Rightarrow> real \<Rightarrow> real" where
  "np_clip a lo hi = min (max a lo) hi"

subsection \<open>External collaborators\<close>

text \<open>
  The vehicle registry (\<open>self.vehicles\<close>): the id lists and the per-vehicle observations
  its getters return. A leader or follower that is not visible is \<open>None\<close> or the empty
  string.
\<close>

record vehicles =
  get_ids :: "string list"
  get_rl_ids :: "string list"
  get_human_ids :: "string list"
  num_vehicles :: nat
  num_rl_vehicles :: nat
  get_speed :: "string \<Rightarrow> real"
  get_leader :: "string \<Rightarrow> string option"
  get_follower :: "string \<Rightarrow> string option"
  get_headway :: "string \<Rightarrow> real"
  get_length :: "string \<Rightarrow> real"

record scenario =
  max_speed :: real
  scn_length :: real

text \<open>
  Values of \<open>env_params.additional_params\<close>: a number (\<open>max_accel\<close>, \<open>max_decel\<close>) or a
  list of integers (\<open>ring_length\<close>).
\<close>

datatype pyval = Num real | Lst "int list"

type_synonym params = "string \<rightharpoonup> pyval"

record env =
  additional_params :: params
  vehicles :: vehicles
  scenario :: scenario
  sorted_ids :: "string list"
  get_x_by_id :: "string \<Rightarrow> real"
  sim_step :: real

datatype variant =
  WaveAttenuationEnv | WaveAttenuationPOEnv | WaveAttenuationMLPGlobalEnv
  | WaveAttenuationMLPLocalEnv | WaveAttenuationCNNDebugEnv | WaveAttenuationCNNEnv
  | WaveAttenuationCNNIDMEnv | WaveAttenuationCNNPIEnv

subsection \<open>Rewards\<close>

text \<open>
  \<open>WaveAttenuationEnv.compute_reward\<close>. \<open>rl_actions\<close> is \<open>None\<close> in the warmup steps.
  \<open>kwargs["fail"]\<close> is only read when no velocity is below -100 (\<open>or\<close> short-circuits)
  and raises \<open>KeyError\<close> when the key is missing.
\<close>

definition compute_reward ::
  "env \<Rightarrow> real list option \<Rightarrow> (string \<rightharpoonup> bool) \<Rightarrow> error + npfloat" where
  "compute_reward e rl_actions kwargs =
     (case rl_actions of
        None \<Rightarrow> Inr (Fin 0)
      | Some acts \<Rightarrow>
          (let vel = map (get_speed (vehicles e)) (get_ids (vehicles e)) in
           if (\<exists>v \<in> set vel. v < - 100) then Inr (Fin 0)
           else
             (case kwargs ''fail'' of
                None \<Rightarrow> Inl (KeyError ''fail'')
              | Some True \<Rightarrow> Inr (Fin 0)
              | Some False \<Rightarrow>
                  (case np_mean vel of
                     Fin m \<Rightarrow>
                       (let reward = 4 * m / 20 in
                        (case np_mean (map abs acts) of
                           Fin a \<Rightarrow>
                             Inr (Fin (if a > 0 then reward + 8 * (0 - a) else reward))
                         | _ \<Rightarrow> Inr (Fin reward)))
                   | other \<Rightarrow> Inr other))))"

text \<open>
  \<open>WaveAttenuationCNNEnv.compute_reward\<close>: a different formula, which reads neither
  \<open>rl_actions\<close> nor \<open>kwargs\<close>.
\<close>

definition cnn_compute_reward ::
  "env \<Rightarrow> real list option \<Rightarrow> (string \<rightharpoonup> bool) \<Rightarrow> error + npfloat" where
  "cnn_compute_reward e rl_actions kwargs =
     (let speed = map (get_speed (vehicles e)) (get_ids (vehicles e)) in
      (case (np_mean speed, np_std speed) of
         (Fin m, Fin s) \<Rightarrow> Inr (np_div (Fin (0.6 * m + 0.4 * s)) (max_speed (scenario e)))
       | _ \<Rightarrow> Inr NaN))"

text \<open>Method resolution: the CNN variants inherit the CNN reward, the others the base one.\<close>

fun compute_reward_of ::
  "variant \<Rightarrow> env \<Rightarrow> real list option \<Rightarrow> (string \<rightharpoonup> bool) \<Rightarrow> error + npfloat" where
  "compute_reward_of WaveAttenuationCNNEnv = cnn_compute_reward"
| "compute_reward_of WaveAttenuationCNNIDMEnv = cnn_compute_reward"
| "compute_reward_of WaveAttenuationCNNPIEnv = cnn_compute_reward"
| "compute_reward_of _ = compute_reward"

subsection \<open>Observations\<close>

text \<open>
  \<open>WaveAttenuationEnv.get_state\<close>: one row \<open>[speed / max_speed, x / length]\<close> per vehicle
  of \<open>sorted_ids\<close>. The operands are Python numbers, so a zero normaliser raises.
\<close>

fun state_rows :: "env \<Rightarrow> string list \<Rightarrow> error + real list list" where
  "state_rows e [] = Inr []"
| "state_rows e (veh_id # rest) =
     (case py_div (get_speed (vehicles e) veh_id) (max_speed (scenario e)) of
        Inl err \<Rightarrow> Inl err
      | Inr v \<Rightarrow>
          (case py_div (get_x_by_id e veh_id) (scn_length (scenario e)) of
             Inl err \<Rightarrow> Inl err
           | Inr x \<Rightarrow>
               (case state_rows e rest of
                  Inl err \<Rightarrow> Inl err
                | Inr rows \<Rightarrow> Inr ([v, x] # rows))))"

definition get_state :: "env \<Rightarrow> error + real list list" where
  "get_state e = state_rows e (sorted_ids e)"

text \<open>\<open>WaveAttenuationMLPGlobalEnv.get_state\<close>: the same rows over \<open>get_ids\<close>, flattened.\<close>

definition mlp_global_get_state :: "env \<Rightarrow> error + real list" where
  "mlp_global_get_state e =
     (case state_rows e (get_ids (vehicles e)) of
        Inl err \<Rightarrow> Inl err
      | Inr rows \<Rightarrow> Inr (concat rows))"

text \<open>
  \<open>WaveAttenuationPOEnv.get_state\<close>. \<open>get_leader(rl_id) or rl_id\<close> falls back to the ego
  vehicle when the leader is \<open>None\<close> or empty. The speed normaliser is the constant 15,
  the headway normaliser \<open>ring_length[1]\<close>.
\<close>

definition leader_or_self :: "vehicles \<Rightarrow> string \<Rightarrow> string" where
  "leader_or_self vs rl_id =
     (case get_leader vs rl_id of
        None \<Rightarrow> rl_id
      | Some l \<Rightarrow> if l = [] then rl_id else l)"

definition po_get_state :: "env \<Rightarrow> error + real list" where
  "po_get_state e =
     (case get_rl_ids (vehicles e) of
        [] \<Rightarrow> Inl IndexError
      | rl_id # _ \<Rightarrow>
          (let lead_id = leader_or_self (vehicles e) rl_id;
               max_speed = 15
           in (case additional_params e ''ring_length'' of
                 None \<Rightarrow> Inl (KeyError ''ring_length'')
               | Some (Num _) \<Rightarrow> Inl TypeError
               | Some (Lst rl) \<Rightarrow>
                   if length rl < 2 then Inl IndexError
                   else
                     (case py_div (get_headway (vehicles e) rl_id) (real_of_int (rl ! 1)) of
                        Inl err \<Rightarrow> Inl err
                      | Inr h \<Rightarrow>
                          Inr [get_speed (vehicles e) rl_id / max_speed,
                               (get_speed (vehicles e) lead_id - get_speed (vehicles e) rl_id)
                                 / max_speed,
                               h]))))"

subsection \<open>The local MLP variant and its bookkeeping lists\<close>

record local_state =
  num_rl :: nat
  rl_queue :: "string list"
  rl_veh :: "string list"
  leader :: "string list"
  follower :: "string list"

text \<open>\<open>lead_id in ["", None]\<close>: the ids that count as a vehicle in sight.\<close>

definition visible :: "string option \<Rightarrow> string option" where
  "visible v = (case v of None \<Rightarrow> None | Some l \<Rightarrow> if l = [] then None else Some l)"

text \<open>
  One iteration of the loop of \<open>WaveAttenuationMLPLocalEnv.get_state\<close> for the vehicle at
  index \<open>i\<close> of \<open>rl_veh\<close>. The first division raises before the first store
  \<open>observation[5 * i]\<close> can be out of range.
\<close>

definition local_obs_step ::
  "env \<Rightarrow> nat \<Rightarrow> string \<Rightarrow> real list \<times> string list \<times> string list
     \<Rightarrow> error + (real list \<times> string list \<times> string list)" where
  "local_obs_step e i rl_id st =
     (case st of (observation, leaders, followers) \<Rightarrow>
        (let vs = vehicles e;
             max_speed = max_speed (scenario e);
             max_length = scn_length (scenario e);
             this_speed = get_speed vs rl_id;
             (leaders', lead_speed, lead_head) =
               (case visible (get_leader vs rl_id) of
                  None \<Rightarrow> (leaders, max_speed, max_length)
                | Some lead_id \<Rightarrow>
                    (leaders @ [lead_id], get_speed vs lead_id,
                     get_x_by_id e lead_id - get_x_by_id e rl_id - get_length vs rl_id));
             (followers', follow_speed, follow_head) =
               (case visible (get_follower vs rl_id) of
                  None \<Rightarrow> (followers, 0, max_length)
                | Some fol \<Rightarrow> (followers @ [fol], get_speed vs fol, get_headway vs fol))
         in if max_speed = 0 then Inl ZeroDivisionError
            else if length observation \<le> 5 * i then Inl IndexError
            else if max_length = 0 then Inl ZeroDivisionError
            else Inr (observation
                        [5 * i := this_speed / max_speed,
                         5 * i + 1 := (lead_speed - this_speed) / max_speed,
                         5 * i + 2 := lead_head / max_length,
                         5 * i + 3 := (this_speed - follow_speed) / max_speed,
                         5 * i + 4 := follow_head / max_length],
                      leaders', followers')))"

fun local_obs_loop ::
  "env \<Rightarrow> nat \<Rightarrow> string list \<Rightarrow> real list \<times> string list \<times> string list
     \<Rightarrow> error + (real list \<times> string list \<times> string list)" where
  "local_obs_loop e i [] st = Inr st"
| "local_obs_loop e i (rl_id # rest) st =
     (case local_obs_step e i rl_id st of
        Inl err \<Rightarrow> Inl err
      | Inr st' \<Rightarrow> local_obs_loop e (Suc i) rest st')"

definition mlp_local_get_state :: "env \<Rightarrow> local_state \<Rightarrow> error + (real list \<times> local_state)" where
  "mlp_local_get_state e s =
     (case local_obs_loop e 0 (rl_veh s) (replicate (5 * num_rl s) 0, [], []) of
        Inl err \<Rightarrow> Inl err
      | Inr (observation, leaders, followers) \<Rightarrow>
          Inr (observation, s\<lparr>leader := leaders, follower := followers\<rparr>))"

text \<open>\<open>list.remove\<close> and \<open>deque.remove\<close>: the first occurrence, or \<open>ValueError\<close>.\<close>

definition py_remove :: "string \<Rightarrow> string list \<Rightarrow> error + string list" where
  "py_remove v xs = (if v \<in> set xs then Inr (remove1 v xs) else Inl ValueError)"

text \<open>First loop of \<open>additional_command\<close>: rl vehicles that just entered join the queue.\<close>

fun enqueue_new :: "string list \<Rightarrow> string list \<Rightarrow> string list \<Rightarrow> string list" where
  "enqueue_new [] queue veh = queue"
| "enqueue_new (veh_id # rest) queue veh =
     enqueue_new rest (if veh_id \<notin> set (queue @ veh) then queue @ [veh_id] else queue) veh"

text \<open>Second loop: it runs over a copy of the queue and removes from the queue itself.\<close>

fun drop_exited :: "string list \<Rightarrow> string list \<Rightarrow> string list \<Rightarrow> error + string list" where
  "drop_exited [] queue rl_ids = Inr queue"
| "drop_exited (veh_id # rest) queue rl_ids =
     (if veh_id \<notin> set rl_ids
      then (case py_remove veh_id queue of
              Inl err \<Rightarrow> Inl err
            | Inr queue' \<Rightarrow> drop_exited rest queue' rl_ids)
      else drop_exited rest queue rl_ids)"

text \<open>
  Third loop: it iterates over \<open>rl_veh\<close> while removing from it. The list iterator keeps
  an index \<open>i\<close> and stops when \<open>i\<close> reaches the current length, so the element that
  follows a removed one is skipped.
\<close>

function purge_rl_veh :: "nat \<Rightarrow> string list \<Rightarrow> string list \<Rightarrow> error + string list" where
  "purge_rl_veh i veh rl_ids =
     (if i < length veh
      then (if veh ! i \<notin> set rl_ids
            then (case py_remove (veh ! i) veh of
                    Inl err \<Rightarrow> Inl err
                  | Inr veh' \<Rightarrow> purge_rl_veh (Suc i) veh' rl_ids)
            else purge_rl_veh (Suc i) veh rl_ids)
      else Inr veh)"
  by pat_completeness auto
termination
  by (relation "measure (\<lambda>(i, veh, rl_ids). length veh - i)")
     (auto simp: py_remove_def length_remove1 split: if_splits)

declare purge_rl_veh.simps [simp del]

text \<open>Fourth loop: \<open>popleft\<close> from the queue while a controlled slot is free.\<close>

fun fill_rl_veh :: "string list \<Rightarrow> string list \<Rightarrow> nat \<Rightarrow> string list \<times> string list" where
  "fill_rl_veh [] veh n = ([], veh)"
| "fill_rl_veh (rl_id # queue) veh n =
     (if length veh < n then fill_rl_veh queue (veh @ [rl_id]) n else (rl_id # queue, veh))"

text \<open>
  \<open>WaveAttenuationMLPLocalEnv.additional_command\<close>, given the ids \<open>get_rl_ids()\<close> returns
  during the call. The result is the new bookkeeping state and the ids passed to
  \<open>set_observed\<close>.
\<close>

definition additional_command ::
  "local_state \<Rightarrow> string list \<Rightarrow> error + (local_state \<times> string list)" where
  "additional_command s rl_ids =
     (let queue1 = enqueue_new rl_ids (rl_queue s) (rl_veh s) in
      (case drop_exited queue1 queue1 rl_ids of
         Inl err \<Rightarrow> Inl err
       | Inr queue2 \<Rightarrow>
           (case purge_rl_veh 0 (rl_veh s) rl_ids of
              Inl err \<Rightarrow> Inl err
            | Inr veh2 \<Rightarrow>
                (case fill_rl_veh queue2 veh2 (num_rl s) of
                   (queue3, veh3) \<Rightarrow>
                     Inr (s\<lparr>rl_queue := queue3, rl_veh := veh3\<rparr>, leader s @ follower s)))))"

subsection \<open>Blending a fallback controller into the action\<close>

text \<open>\<open>"rl" in vid\<close>: substring test.\<close>

fun starts_with :: "string \<Rightarrow> string \<Rightarrow> bool" where
  "starts_with [] s = True"
| "starts_with (p # ps) [] = False"
| "starts_with (p # ps) (c # cs) = (p = c \<and> starts_with ps cs)"

fun str_in :: "string \<Rightarrow> string \<Rightarrow> bool" where
  "str_in sub [] = (sub = [])"
| "str_in sub (c # cs) = (starts_with sub (c # cs) \<or> str_in sub cs)"

text \<open>
  The loop shared by the two \<open>apply_acceleration\<close> overrides; they differ in the line that
  blends the policy action with the fallback controller's output. \<open>ctrl ! i\<close> is what
  \<open>self.default_controller[i].get_accel(self)\<close> returns (the controllers are external).
  The result is the action list as mutated and the \<open>slowDown(vid, next_vel, 1)\<close> commands
  sent to the simulator, in order.
\<close>

fun apply_loop ::
  "(real \<Rightarrow> real \<Rightarrow> real) \<Rightarrow> env \<Rightarrow> real list \<Rightarrow> nat \<Rightarrow> string list \<Rightarrow> real option list
     \<Rightarrow> (string \<times> real \<times> nat) list
     \<Rightarrow> error + (real option list \<times> (string \<times> real \<times> nat) list)" where
  "apply_loop blend e ctrl i [] acc cmds = Inr (acc, cmds)"
| "apply_loop blend e ctrl i (vid # rest) acc cmds =
     (if length acc \<le> i then Inl IndexError
      else
        (case acc ! i of
           None \<Rightarrow> apply_loop blend e ctrl (Suc i) rest acc cmds
         | Some a \<Rightarrow>
             (let this_vel = get_speed (vehicles e) vid in
              if str_in ''rl'' vid
              then (if length ctrl \<le> i then Inl IndexError
                    else
                      (let a' = blend a (ctrl ! i);
                           next_vel = max (this_vel + a' * sim_step e) 0
                       in apply_loop blend e ctrl (Suc i) rest (acc[i := Some a'])
                            (cmds @ [(vid, next_vel, 1)])))
              else
                (let next_vel = max (this_vel + a * sim_step e) 0
                 in apply_loop blend e ctrl (Suc i) rest acc (cmds @ [(vid, next_vel, 1)])))))"

text \<open>\<open>WaveAttenuationCNNIDMEnv\<close>: \<open>acc[i] = 0.5*np.clip(acc[i], -5, 3) + 0.5*default_acc\<close>.\<close>

definition idm_blend :: "real \<Rightarrow> real \<Rightarrow> real" where
  "idm_blend a default_acc = 0.5 * np_clip a (- 5) 3 + 0.5 * default_acc"

definition idm_apply_acceleration ::
  "env \<Rightarrow> real list \<Rightarrow> string list \<Rightarrow> real option list
     \<Rightarrow> error + (real option list \<times> (string \<times> real \<times> nat) list)" where
  "idm_apply_acceleration e ctrl veh_ids acc = apply_loop idm_blend e ctrl 0 veh_ids acc []"

text \<open>\<open>WaveAttenuationCNNPIEnv\<close>: \<open>acc[i] += default_acc\<close>.\<close>

definition pi_blend :: "real \<Rightarrow> real \<Rightarrow> real" where
  "pi_blend a default_acc = a + default_acc"

definition pi_apply_acceleration ::
  "env \<Rightarrow> real list \<Rightarrow> string list \<Rightarrow> real option list
     \<Rightarrow> error + (real option list \<times> (string \<times> real \<times> nat) list)" where
  "pi_apply_acceleration e ctrl veh_ids acc = apply_loop pi_blend e ctrl 0 veh_ids acc []"

subsection \<open>Construction\<close>

definition ADDITIONAL_ENV_PARAMS :: "(string \<times> pyval) list" where
  "ADDITIONAL_ENV_PARAMS =
     [(''max_accel'', Num 3), (''max_decel'', Num 5), (''ring_length'', Lst [260, 260])]"

definition not_supplied :: "string \<Rightarrow> string" where
  "not_supplied p = ''Environment parameter '' @ [CHR 0x22] @ p @ [CHR 0x22] @ '' not supplied''"

fun check_params :: "string list \<Rightarrow> params \<Rightarrow> error + unit" where
  "check_params [] ap = Inr ()"
| "check_params (p # ps) ap =
     (if p \<notin> dom ap then Inl (KeyError (not_supplied p)) else check_params ps ap)"

text \<open>
  \<open>WaveAttenuationEnv.__init__\<close> up to the call of the external base constructor, which
  is not modelled.
\<close>

definition init :: "params \<Rightarrow> error + unit" where
  "init ap = check_params (map fst ADDITIONAL_ENV_PARAMS) ap"

text \<open>
  \<open>WaveAttenuationMLPLocalEnv.__init__\<close> sets its bookkeeping fields and then runs the
  inherited constructor.
\<close>

definition mlp_local_init :: "params \<Rightarrow> error + local_state" where
  "mlp_local_init ap =
     (let s = \<lparr>num_rl = 1, rl_queue = [], rl_veh = [], leader = [], follower = []\<rparr>
      in (case init ap of Inl err \<Rightarrow> Inl err | Inr _ \<Rightarrow> Inr s))"

text \<open>
  Every other subclass inherits \<open>__init__\<close> or calls it through \<open>super().__init__\<close> before
  anything else (the CNN variants with a fallback controller build their controller list
  afterwards).
\<close>

fun init_of :: "variant \<Rightarrow> params \<Rightarrow> error + unit" where
  "init_of WaveAttenuationMLPLocalEnv ap =
     (case mlp_local_init ap of Inl err \<Rightarrow> Inl err | Inr _ \<Rightarrow> Inr ())"
| "init_of _ ap = init ap"

subsection \<open>Action space\<close>

text \<open>
  gym's \<open>Box(low, high, shape)\<close> with scalar bounds broadcasts them over \<open>shape\<close>; here
  the shape is one-dimensional.
\<close>

record box =
  low :: "real list"
  high :: "real list"

definition Box :: "real \<Rightarrow> real \<Rightarrow> nat \<Rightarrow> box" where
  "Box lo hi n = \<lparr>low = replicate n lo, high = replicate n hi\<rparr>"

text \<open>
  \<open>WaveAttenuationEnv.action_space\<close>. A list under \<open>max_decel\<close> or \<open>max_accel\<close> is outside
  the configuration's types and is reported as \<open>TypeError\<close>.
\<close>

definition action_space :: "env \<Rightarrow> error + box" where
  "action_space e =
     (case additional_params e ''max_decel'' of
        None \<Rightarrow> Inl (KeyError ''max_decel'')
      | Some (Lst _) \<Rightarrow> Inl TypeError
      | Some (Num d) \<Rightarrow>
          (case additional_params e ''max_accel'' of
             None \<Rightarrow> Inl (KeyError ''max_accel'')
           | Some (Lst _) \<Rightarrow> Inl TypeError
           | Some (Num a) \<Rightarrow> Inr (Box (- \<bar>d\<bar>) a (num_rl_vehicles (vehicles e)))))"

text \<open>No subclass overrides \<open>action_space\<close>.\<close>

definition action_space_of :: "variant \<Rightarrow> env \<Rightarrow> error + box" where
  "action_space_of v e = action_space e"

subsection \<open>Reset\<close>

text \<open>
  \<open>random.randint(a, b)\<close> is \<open>a + _randbelow(b + 1 - a)\<close> and raises \<open>ValueError\<close> on an
  empty range. The generator's draw is the argument \<open>r\<close>, reduced below the width.
\<close>

definition randint :: "int \<Rightarrow> int \<Rightarrow> nat \<Rightarrow> error + int" where
  "randint a b r =
     (if 0 < b + 1 - a then Inr (a + int (r mod nat (b + 1 - a))) else Inl ValueError)"

record net_params =
  np_length :: int
  lanes :: nat
  speed_limit :: nat
  resolution :: nat

text \<open>
  \<open>WaveAttenuationEnv.reset\<close> up to the construction of the new scenario: the
  \<open>additional_net_params\<close> it is built from. What follows is not modelled: the
  equilibrium speed, solved by \<open>fsolve\<close> from the local \<open>v_eq_max_function\<close> and only
  printed (it divides by \<open>num_vehicles - 1\<close>, so it raises on a one-vehicle ring, after
  the scenario has been rebuilt), \<open>restart_sumo\<close> and the base class's \<open>reset\<close>.
\<close>

definition reset :: "env \<Rightarrow> nat \<Rightarrow> error + net_params" where
  "reset e r =
     (case additional_params e ''ring_length'' of
        None \<Rightarrow> Inl (KeyError ''ring_length'')
      | Some (Num _) \<Rightarrow> Inl TypeError
      | Some (Lst rl) \<Rightarrow>
          if length rl < 2 then Inl IndexError
          else
            (case randint (rl ! 0) (rl ! 1) r of
               Inl err \<Rightarrow> Inl err
             | Inr n \<Rightarrow> Inr \<lparr>np_length = n, lanes = 1, speed_limit = 30, resolution = 40\<rparr>))"

subsection \<open>Life cycle of the local variant's bookkeeping\<close>

text \<open>
  The states of the bookkeeping lists an instance can be in: the one the constructor
  leaves, and those that \<open>additional_command\<close> and \<open>get_state\<close> produce from them,
  whatever the simulator reports at each step.
\<close>

inductive reachable :: "local_state \<Rightarrow> bool" where
  constructed: "mlp_local_init ap = Inr s \<Longrightarrow> reachable s"
| commanded: "reachable s \<Longrightarrow> additional_command s rl_ids = Inr (s', observed) \<Longrightarrow> reachable s'"
| observed: "reachable s \<Longrightarrow> mlp_local_get_state e s = Inr (observation, s') \<Longrightarrow> reachable s'"

text \<open>
  What the constructor establishes and every step keeps: one controlled slot, at most one
  controlled vehicle, and a queue without repetitions that holds no controlled vehicle.
\<close>

definition bookkeeping_inv :: "local_state \<Rightarrow> bool" where
  "bookkeeping_inv s \<longleftrightarrow>
     num_rl s = 1 \<and> length (rl_veh s) \<le> 1 \<and> distinct (rl_queue s)
     \<and> set (rl_queue s) \<inter> set (rl_veh s) = {}"

subsection \<open>A concrete ring\<close>

text \<open>
  Two vehicles on a ring of length 260 with speed limit 30: the controlled vehicle
  \<open>rl_0\<close> at position 100 driving at 10, and 20 ahead of it the human-driven
  \<open>human_0\<close> at position 125 driving at 5.
\<close>

definition ring_vehicles :: vehicles where
  "ring_vehicles =
     \<lparr>get_ids = [''human_0'', ''rl_0''],
      get_rl_ids = [''rl_0''],
      get_human_ids = [''human_0''],
      num_vehicles = 2,
      num_rl_vehicles = 1,
      get_speed = (\<lambda>v. if v = ''rl_0'' then 10 else 5),
      get_leader = (\<lambda>v. Some (if v = ''rl_0'' then ''human_0'' else ''rl_0'')),
      get_follower = (\<lambda>v. Some (if v = ''rl_0'' then ''human_0'' else ''rl_0'')),
      get_headway = (\<lambda>v. if v = ''rl_0'' then 20 else 230),
      get_length = (\<lambda>v. 5)\<rparr>"

definition ring_env :: env where
  "ring_env =
     \<lparr>additional_params = map_of ADDITIONAL_ENV_PARAMS,
      vehicles = ring_vehicles,
      scenario = \<lparr>max_speed = 30, scn_length = 260\<rparr>,
      sorted_ids = [''rl_0'', ''human_0''],
      get_x_by_id = (\<lambda>v. if v = ''rl_0'' then 100 else 125),
      sim_step = 0.1\<rparr>"

text \<open>The same ring when the simulator reports no leader for any vehicle.\<close>

definition lone_env :: env where
  "lone_env = ring_env\<lparr>vehicles := ring_vehicles\<lparr>get_leader := (\<lambda>v. None)\<rparr>\<rparr>"

text \<open>The local variant controlling \<open>rl_0\<close>, with \<open>rl_1\<close> waiting.\<close>

definition controlling :: local_state where
  "controlling =
     \<lparr>num_rl = 1, rl_queue = [''rl_1''], rl_veh = [''rl_0''], leader = [], follower = []\<rparr>"

section \<open>Properties\<close>

subsection \<open>Rewards\<close>

lemma ring_speeds:
  "map (get_speed (vehicles ring_env)) (get_ids (vehicles ring_env)) = [5, 10]"
  by (simp add: ring_env_def ring_vehicles_def)

lemma sqrt_25_4: "sqrt (25 / 4) = 5 / 2"
  by (rule real_sqrt_unique) (simp_all add: power2_eq_square)

lemma np_std_ring: "np_std [5, 10] = Fin (5 / 2)"
  by (simp add: np_std_def mean_def power2_eq_square sqrt_25_4)

lemma np_mean_ring: "np_mean [5, 10] = Fin (15 / 2)"
  by (simp add: np_mean_def mean_def)

text \<open>
  C1, as stated, fails: with the failure flag set, the reward of
  \<open>WaveAttenuationCNNEnv\<close> on the concrete ring is \<open>(0.6 * 7.5 + 0.4 * 2.5) / 30 = 11/60\<close>,
  not 0.
\<close>

theorem cnn_reward_ignores_failure:
  "compute_reward_of WaveAttenuationCNNEnv ring_env (Some [1]) (Map.empty(''fail'' \<mapsto> True))
     = Inr (Fin (11 / 60))"
  by (simp add: cnn_compute_reward_def ring_speeds np_std_ring np_mean_ring)
     (simp add: ring_env_def)

text \<open>
  C1, amended: for the variants that use \<open>WaveAttenuationEnv.compute_reward\<close> (the base
  class, the PO, MLP-global, MLP-local and CNN-debug variants), the reward is exactly 0
  and nothing is raised whenever the failure flag \<open>kwargs["fail"]\<close> is set or some
  vehicle's velocity is below -100. The CNN variants (CNN, CNN-IDM, CNN-PI) return
  \<open>(0.6 * mean(speed) + 0.4 * std(speed)) / max_speed\<close> over the speeds of all
  vehicles, whatever the flag and the actions: nan when there is no vehicle, and numpy's
  quotient (an infinity or nan) when \<open>max_speed\<close> is 0.
\<close>

theorem compute_reward_zero_on_failure:
  assumes "kwargs ''fail'' = Some True
         \<or> (\<exists>veh_id \<in> set (get_ids (vehicles e)). get_speed (vehicles e) veh_id < - 100)"
    and "speed = map (get_speed (vehicles e)) (get_ids (vehicles e))"
  shows "(v \<in> {WaveAttenuationEnv, WaveAttenuationPOEnv, WaveAttenuationMLPGlobalEnv,
                WaveAttenuationMLPLocalEnv, WaveAttenuationCNNDebugEnv}
            \<longrightarrow> compute_reward_of v e rl_actions kwargs = Inr (Fin 0))
       \<and> (v \<in> {WaveAttenuationCNNEnv, WaveAttenuationCNNIDMEnv, WaveAttenuationCNNPIEnv}
            \<longrightarrow> compute_reward_of v e rl_actions kwargs
                = (if speed = [] then Inr NaN
                   else Inr (np_div
                          (Fin (0.6 * mean speed
                                + 0.4 * sqrt (mean (map (\<lambda>x. (x - mean speed)\<^sup>2) speed))))
                          (max_speed (scenario e))))
              \<and> (speed \<noteq> [] \<and> max_speed (scenario e) \<noteq> 0 \<longrightarrow>
                    compute_reward_of v e rl_actions kwargs
                      = Inr (Fin ((0.6 * mean speed
                                   + 0.4 * sqrt (mean (map (\<lambda>x. (x - mean speed)\<^sup>2) speed)))
                                  / max_speed (scenario e))))
              \<and> compute_reward_of v e rl_actions kwargs
                  = compute_reward_of v e rl_actions' kwargs')"
proof -
  have base: "compute_reward e rl_actions kwargs = Inr (Fin 0)"
    using assms(1) by (auto simp: compute_reward_def split: option.splits bool.splits)
  have cnn: "cnn_compute_reward e acts kw
      = (if speed = [] then Inr NaN
         else Inr (np_div
                (Fin (0.6 * mean speed
                      + 0.4 * sqrt (mean (map (\<lambda>x. (x - mean speed)\<^sup>2) speed))))
                (max_speed (scenario e))))" for acts kw
    by (simp add: cnn_compute_reward_def np_mean_def np_std_def Let_def assms(2))
  have "v \<in> {WaveAttenuationEnv, WaveAttenuationPOEnv, WaveAttenuationMLPGlobalEnv,
                WaveAttenuationMLPLocalEnv, WaveAttenuationCNNDebugEnv}
            \<longrightarrow> compute_reward_of v e rl_actions kwargs = Inr (Fin 0)"
    using base by auto
  moreover have "v \<in> {WaveAttenuationCNNEnv, WaveAttenuationCNNIDMEnv, WaveAttenuationCNNPIEnv}
      \<longrightarrow> compute_reward_of v e acts kw = cnn_compute_reward e acts kw" for acts kw
    by auto
  ultimately show ?thesis
    by (simp add: cnn)
qed

theorem compute_reward_zero_on_failure_witness:
  "compute_reward_of WaveAttenuationPOEnv ring_env (Some [1]) (Map.empty(''fail'' \<mapsto> True))
     = Inr (Fin 0)
   \<and> compute_reward_of WaveAttenuationCNNPIEnv ring_env (Some [1]) (Map.empty(''fail'' \<mapsto> True))
     = Inr (Fin ((0.6 * mean [5, 10] + 0.4 * sqrt (mean (map (\<lambda>x. (x - mean [5, 10])\<^sup>2) [5, 10])))
                 / 30))
   \<and> (0.6 * mean [5, 10] + 0.4 * sqrt (mean (map (\<lambda>x. (x - mean [5, 10])\<^sup>2) [5, 10]))) / 30
     = (11 / 60 :: real)"
proof -
  have m: "max_speed (scenario ring_env) = 30"
    by (simp add: ring_env_def)
  have s: "sqrt (mean (map (\<lambda>x. (x - mean [5, 10])\<^sup>2) [5, 10])) = 5 / 2"
    using np_std_ring by (simp add: np_std_def)
  have v: "(0.6 * mean [5, 10] + 0.4 * sqrt (mean (map (\<lambda>x. (x - mean [5, 10])\<^sup>2) [5, 10]))) / 30
     = (11 / 60 :: real)"
    unfolding s by (simp add: mean_def)
  show ?thesis
    using compute_reward_zero_on_failure
      [of "Map.empty(''fail'' \<mapsto> True)" ring_env "[5, 10]" WaveAttenuationPOEnv "Some [1]"]
      compute_reward_zero_on_failure
      [of "Map.empty(''fail'' \<mapsto> True)" ring_env "[5, 10]" WaveAttenuationCNNPIEnv "Some [1]"]
      ring_speeds m v
    by simp
qed

text \<open>
  C8: \<open>WaveAttenuationEnv.compute_reward\<close> returns 0 whenever \<open>rl_actions\<close> is \<open>None\<close>,
  whatever the vehicle speeds and the failure flag (even a missing one).
\<close>

theorem compute_reward_warmup: "compute_reward e None kwargs = Inr (Fin 0)"
  by (simp add: compute_reward_def)

theorem compute_reward_warmup_witness: "compute_reward ring_env None Map.empty = Inr (Fin 0)"
  using compute_reward_warmup [of ring_env Map.empty] by simp

subsection \<open>Observations\<close>

text \<open>
  The rows of \<open>WaveAttenuationEnv.get_state\<close> and \<open>WaveAttenuationMLPGlobalEnv.get_state\<close>
  do lie in the unit interval when speeds and positions are within positive normalisers.
\<close>

lemma state_rows_unit_interval:
  assumes "0 < max_speed (scenario e)" and "0 < scn_length (scenario e)"
    and "\<forall>v \<in> set ids. 0 \<le> get_speed (vehicles e) v
            \<and> get_speed (vehicles e) v \<le> max_speed (scenario e)
            \<and> 0 \<le> get_x_by_id e v \<and> get_x_by_id e v \<le> scn_length (scenario e)"
  shows "\<exists>rows. state_rows e ids = Inr rows \<and> length rows = length ids
            \<and> (\<forall>row \<in> set rows. \<forall>x \<in> set row. 0 \<le> x \<and> x \<le> 1)"
  using assms(3)
proof (induction ids)
  case Nil
  then show ?case by simp
next
  case (Cons v ids)
  then obtain rows where r: "state_rows e ids = Inr rows" "length rows = length ids"
    "\<forall>row \<in> set rows. \<forall>x \<in> set row. 0 \<le> x \<and> x \<le> 1" by auto
  from Cons.prems assms(1,2) show ?case
    by (simp add: r py_div_def)
qed

lemma get_state_unit_interval:
  assumes "0 < max_speed (scenario e)" and "0 < scn_length (scenario e)"
    and "\<forall>v \<in> set (sorted_ids e) \<union> set (get_ids (vehicles e)).
            0 \<le> get_speed (vehicles e) v \<and> get_speed (vehicles e) v \<le> max_speed (scenario e)
            \<and> 0 \<le> get_x_by_id e v \<and> get_x_by_id e v \<le> scn_length (scenario e)"
  shows "\<exists>rows. get_state e = Inr rows
            \<and> (\<forall>row \<in> set rows. \<forall>x \<in> set row. 0 \<le> x \<and> x \<le> 1)"
    and "\<exists>obs. mlp_global_get_state e = Inr obs \<and> (\<forall>x \<in> set obs. 0 \<le> x \<and> x \<le> 1)"
proof -
  show "\<exists>rows. get_state e = Inr rows
            \<and> (\<forall>row \<in> set rows. \<forall>x \<in> set row. 0 \<le> x \<and> x \<le> 1)"
    using state_rows_unit_interval [OF assms(1,2), of "sorted_ids e"] assms(3)
    unfolding get_state_def by blast
  obtain rows where "state_rows e (get_ids (vehicles e)) = Inr rows"
    "\<forall>row \<in> set rows. \<forall>x \<in> set row. 0 \<le> x \<and> x \<le> 1"
    using state_rows_unit_interval [OF assms(1,2), of "get_ids (vehicles e)"] assms(3)
    by blast
  then show "\<exists>obs. mlp_global_get_state e = Inr obs \<and> (\<forall>x \<in> set obs. 0 \<le> x \<and> x \<le> 1)"
    by (auto simp: mlp_global_get_state_def)
qed

text \<open>
  C2 at a failing input. On the concrete ring every speed lies in \<open>[0, 30]\<close> and every
  position in \<open>[0, 260]\<close>, and the leader \<open>human_0\<close> (speed 5) is slower than the ego
  vehicle \<open>rl_0\<close> (speed 10). The relative-speed component of the observation is
  negative, both in \<open>WaveAttenuationPOEnv.get_state\<close> (\<open>-1/3\<close>) and in
  \<open>WaveAttenuationMLPLocalEnv.get_state\<close> (\<open>-1/6\<close>), although both classes declare
  the observation space \<open>Box(low=0, high=1)\<close>.
\<close>

theorem observation_outside_unit_interval:
  "po_get_state ring_env = Inr [2 / 3, - (1 / 3), 1 / 13]
   \<and> mlp_local_get_state ring_env controlling
       = Inr ([1 / 3, - (1 / 6), 1 / 13, 1 / 6, 23 / 26],
              controlling\<lparr>leader := [''human_0''], follower := [''human_0'']\<rparr>)"
  by (simp add: po_get_state_def mlp_local_get_state_def local_obs_step_def visible_def
      leader_or_self_def py_div_def ring_env_def ring_vehicles_def controlling_def
      ADDITIONAL_ENV_PARAMS_def eval_nat_numeral)

text \<open>
  C9: in \<open>WaveAttenuationPOEnv.get_state\<close>, when \<open>get_leader\<close> returns \<open>None\<close> or the
  empty string for the ego vehicle, the ego vehicle is used as its own leader, and the
  relative-speed component (index 1 of the 3-element observation) is exactly 0. With a
  \<open>ring_length\<close> of at least two entries whose second is not zero the observation is
  returned.
\<close>

theorem po_no_leader_relative_speed:
  assumes "get_rl_ids (vehicles e) = rl_id # rest"
    and "get_leader (vehicles e) rl_id = None \<or> get_leader (vehicles e) rl_id = Some []"
  shows "leader_or_self (vehicles e) rl_id = rl_id
       \<and> (\<forall>obs. po_get_state e = Inr obs \<longrightarrow> length obs = 3 \<and> obs ! 1 = 0)
       \<and> (\<forall>rl. additional_params e ''ring_length'' = Some (Lst rl) \<and> 2 \<le> length rl \<and> rl ! 1 \<noteq> 0
            \<longrightarrow> po_get_state e =
                  Inr [get_speed (vehicles e) rl_id / 15, 0,
                       get_headway (vehicles e) rl_id / real_of_int (rl ! 1)])"
proof -
  have self: "leader_or_self (vehicles e) rl_id = rl_id"
    using assms(2) by (auto simp: leader_or_self_def)
  show ?thesis
    using assms(1) self
    by (auto simp: po_get_state_def py_div_def split: option.splits pyval.splits if_splits)
qed

theorem po_no_leader_relative_speed_witness:
  "po_get_state lone_env = Inr [2 / 3, 0, 1 / 13]"
proof -
  have ids: "get_rl_ids (vehicles lone_env) = ''rl_0'' # []"
    by (simp add: lone_env_def ring_env_def ring_vehicles_def)
  have nl: "get_leader (vehicles lone_env) ''rl_0'' = None
            \<or> get_leader (vehicles lone_env) ''rl_0'' = Some []"
    by (simp add: lone_env_def ring_env_def ring_vehicles_def)
  have rl: "additional_params lone_env ''ring_length'' = Some (Lst [260, 260])"
    by (simp add: lone_env_def ring_env_def ADDITIONAL_ENV_PARAMS_def)
  show ?thesis
    using po_no_leader_relative_speed [OF ids nl] rl
    by (simp add: lone_env_def ring_env_def ring_vehicles_def)
qed

subsection \<open>Construction, action space and reset\<close>

text \<open>
  C5: for every variant, construction fails the parameter validation if and only if one
  of the keys \<open>max_accel\<close>, \<open>max_decel\<close>, \<open>ring_length\<close> is absent from the additional
  parameters; the error is the \<open>KeyError\<close> naming the first absent key, and with all
  three present the validation passes.
\<close>

theorem init_raises_iff_key_absent:
  "init_of v ap =
     (if ''max_accel'' \<notin> dom ap then Inl (KeyError (not_supplied ''max_accel''))
      else if ''max_decel'' \<notin> dom ap then Inl (KeyError (not_supplied ''max_decel''))
      else if ''ring_length'' \<notin> dom ap then Inl (KeyError (not_supplied ''ring_length''))
      else Inr ())
   \<and> ((\<exists>err. init_of v ap = Inl err)
        \<longleftrightarrow> \<not> {''max_accel'', ''max_decel'', ''ring_length''} \<subseteq> dom ap)"
  by (cases v) (auto simp: init_def mlp_local_init_def ADDITIONAL_ENV_PARAMS_def)

theorem init_raises_iff_key_absent_witness:
  "init_of WaveAttenuationMLPLocalEnv (map_of ADDITIONAL_ENV_PARAMS) = Inr ()
   \<and> init_of WaveAttenuationCNNIDMEnv [''max_accel'' \<mapsto> Num 1, ''ring_length'' \<mapsto> Lst [220, 270]]
       = Inl (KeyError (not_supplied ''max_decel''))"
  using init_raises_iff_key_absent [of WaveAttenuationMLPLocalEnv "map_of ADDITIONAL_ENV_PARAMS"]
    init_raises_iff_key_absent [of WaveAttenuationCNNIDMEnv
      "[''max_accel'' \<mapsto> Num 1, ''ring_length'' \<mapsto> Lst [220, 270]]"]
  by (simp add: ADDITIONAL_ENV_PARAMS_def dom_def)

text \<open>
  C7: for every variant the action space is a box with one component per rl vehicle,
  each with lower bound \<open>-|max_decel|\<close> and upper bound \<open>max_accel\<close>.
\<close>

theorem action_space_bounds:
  assumes "additional_params e ''max_decel'' = Some (Num d)"
    and "additional_params e ''max_accel'' = Some (Num a)"
  shows "\<exists>b. action_space_of v e = Inr b
           \<and> length (low b) = num_rl_vehicles (vehicles e)
           \<and> length (high b) = num_rl_vehicles (vehicles e)
           \<and> (\<forall>i < num_rl_vehicles (vehicles e). low b ! i = - \<bar>d\<bar> \<and> high b ! i = a)"
  using assms by (simp add: action_space_of_def action_space_def Box_def)

theorem action_space_bounds_witness:
  "\<exists>b. action_space_of WaveAttenuationPOEnv ring_env = Inr b
           \<and> length (low b) = 1 \<and> length (high b) = 1
           \<and> (\<forall>i < 1. low b ! i = - 5 \<and> high b ! i = 3)"
proof -
  have d: "additional_params ring_env ''max_decel'' = Some (Num 5)"
    by (simp add: ring_env_def ADDITIONAL_ENV_PARAMS_def)
  have a: "additional_params ring_env ''max_accel'' = Some (Num 3)"
    by (simp add: ring_env_def ADDITIONAL_ENV_PARAMS_def)
  have n: "num_rl_vehicles (vehicles ring_env) = 1"
    by (simp add: ring_env_def ring_vehicles_def)
  show ?thesis
    using action_space_bounds [OF d a, of WaveAttenuationPOEnv] by (simp add: n)
qed

lemma randbelow_less: "0 < w \<Longrightarrow> int (r mod nat w) < w"
proof -
  assume w: "0 < w"
  then have "r mod nat w < nat w" by simp
  then show ?thesis by (simp only: zless_nat_eq_int_zless)
qed

text \<open>
  C6: whenever \<open>reset\<close> builds a network, its ring length is an integer between
  \<open>ring_length[0]\<close> and \<open>ring_length[1]\<close> inclusive, whatever the generator draws; and
  it does build one when the configured range is not empty.
\<close>

theorem reset_length_in_range:
  assumes "additional_params e ''ring_length'' = Some (Lst rl)"
  shows "(\<forall>np. reset e r = Inr np \<longrightarrow>
            2 \<le> length rl \<and> rl ! 0 \<le> np_length np \<and> np_length np \<le> rl ! 1)
       \<and> (2 \<le> length rl \<and> rl ! 0 \<le> rl ! 1 \<longrightarrow> (\<exists>np. reset e r = Inr np))"
proof (intro conjI allI impI)
  fix np assume ret: "reset e r = Inr np"
  from ret assms show len: "2 \<le> length rl"
    by (auto simp: reset_def split: if_splits)
  from ret assms len have w: "0 < rl ! 1 + 1 - rl ! 0"
    and n: "np_length np = rl ! 0 + int (r mod nat (rl ! 1 + 1 - rl ! 0))"
    by (auto simp: reset_def randint_def split: if_splits)
  show "rl ! 0 \<le> np_length np" using n by simp
  show "np_length np \<le> rl ! 1" using n randbelow_less [OF w, of r] by simp
next
  assume "2 \<le> length rl \<and> rl ! 0 \<le> rl ! 1"
  then show "\<exists>np. reset e r = Inr np"
    using assms by (simp add: reset_def randint_def)
qed

theorem reset_length_in_range_witness:
  "\<exists>np. reset (ring_env\<lparr>additional_params := [''ring_length'' \<mapsto> Lst [220, 270]]\<rparr>) 57 = Inr np
      \<and> np_length np = 226 \<and> 220 \<le> np_length np \<and> np_length np \<le> 270"
proof -
  let ?e = "ring_env\<lparr>additional_params := [''ring_length'' \<mapsto> Lst [220, 270]]\<rparr>"
  have rl: "additional_params ?e ''ring_length'' = Some (Lst [220, 270])"
    by simp
  have "reset ?e 57 = Inr \<lparr>np_length = 226, lanes = 1, speed_limit = 30, resolution = 40\<rparr>"
    by (simp add: reset_def randint_def)
  with reset_length_in_range [OF rl, of 57] show ?thesis
    by simp
qed

subsection \<open>Blending a fallback controller into the action\<close>

lemma apply_loop_returns:
  "i + length vids \<le> length acc \<Longrightarrow> i + length vids \<le> length ctrl
     \<Longrightarrow> \<exists>r. apply_loop blend e ctrl i vids acc cmds = Inr r"
proof (induction vids arbitrary: i acc cmds)
  case Nil
  then show ?case by simp
next
  case (Cons vid rest)
  have len: "Suc i + length rest \<le> length acc" "Suc i + length rest \<le> length ctrl"
    using Cons.prems by simp_all
  have upd: "Suc i + length rest \<le> length (acc[i := x])" for x
    using len by simp
  show ?case
    using Cons.prems Cons.IH [OF len] Cons.IH [OF upd len(2)]
    by (simp add: Let_def split: option.splits)
qed

lemma apply_loop_acc:
  "apply_loop blend e ctrl i vids acc cmds = Inr (acc', cmds')
     \<Longrightarrow> length acc' = length acc
       \<and> (\<forall>j. acc' ! j =
            (if i \<le> j \<and> j < i + length vids
             then (case acc ! j of
                     None \<Rightarrow> None
                   | Some a \<Rightarrow>
                       Some (if str_in ''rl'' (vids ! (j - i)) then blend a (ctrl ! j) else a))
             else acc ! j))"
proof (induction vids arbitrary: i acc cmds)
  case Nil
  then show ?case by auto
next
  case (Cons vid rest)
  from Cons.prems have i: "i < length acc"
    by (simp split: if_splits)
  show ?case
  proof (cases "acc ! i")
    case None
    with Cons.prems i have "apply_loop blend e ctrl (Suc i) rest acc cmds = Inr (acc', cmds')"
      by simp
    from Cons.IH [OF this] None show ?thesis
      by (auto simp: nth_Cons' Suc_diff_le not_less_eq_eq le_Suc_eq split: option.splits)
  next
    case (Some a)
    show ?thesis
    proof (cases "str_in ''rl'' vid")
      case True
      with Cons.prems i Some
      have "apply_loop blend e ctrl (Suc i) rest (acc[i := Some (blend a (ctrl ! i))])
              (cmds @ [(vid, max (get_speed (vehicles e) vid + blend a (ctrl ! i) * sim_step e) 0, 1)])
            = Inr (acc', cmds')"
        by (simp add: Let_def split: if_splits)
      from Cons.IH [OF this] Some True i show ?thesis
        by (auto simp: nth_Cons' nth_list_update Suc_diff_le not_less_eq_eq le_Suc_eq split: option.splits)
    next
      case False
      with Cons.prems i Some
      have "apply_loop blend e ctrl (Suc i) rest acc
              (cmds @ [(vid, max (get_speed (vehicles e) vid + a * sim_step e) 0, 1)])
            = Inr (acc', cmds')"
        by (simp add: Let_def split: if_splits)
      from Cons.IH [OF this] Some False i show ?thesis
        by (auto simp: nth_Cons' Suc_diff_le not_less_eq_eq le_Suc_eq split: option.splits)
    qed
  qed
qed

lemma apply_loop_cmds:
  "apply_loop blend e ctrl i vids acc cmds = Inr (acc', cmds')
     \<Longrightarrow> cmds' = cmds @
           concat (map
             (\<lambda>(vid, a). case a of
                  None \<Rightarrow> []
                | Some a' \<Rightarrow> [(vid, max (get_speed (vehicles e) vid + a' * sim_step e) 0, 1::nat)])
             (zip vids (drop i acc')))"
proof (induction vids arbitrary: i acc cmds)
  case Nil
  then show ?case by simp
next
  case (Cons vid rest)
  from Cons.prems have i: "i < length acc"
    by (simp split: if_splits)
  from apply_loop_acc [OF Cons.prems] have len: "length acc' = length acc"
    and here: "acc' ! i = (case acc ! i of None \<Rightarrow> None
         | Some a \<Rightarrow> Some (if str_in ''rl'' vid then blend a (ctrl ! i) else a))"
    by (simp_all split: option.splits)
  from i len have dr: "drop i acc' = acc' ! i # drop (Suc i) acc'"
    by (simp add: Cons_nth_drop_Suc)
  show ?case
  proof (cases "acc ! i")
    case None
    with Cons.prems i have "apply_loop blend e ctrl (Suc i) rest acc cmds = Inr (acc', cmds')"
      by simp
    from Cons.IH [OF this] None here show ?thesis
      by (simp add: dr del: One_nat_def)
  next
    case (Some a)
    show ?thesis
    proof (cases "str_in ''rl'' vid")
      case True
      with Cons.prems i Some
      have "apply_loop blend e ctrl (Suc i) rest (acc[i := Some (blend a (ctrl ! i))])
              (cmds @ [(vid, max (get_speed (vehicles e) vid + blend a (ctrl ! i) * sim_step e) 0, 1)])
            = Inr (acc', cmds')"
        by (simp add: Let_def split: if_splits)
      from Cons.IH [OF this] Some True here show ?thesis
        by (simp add: dr del: One_nat_def)
    next
      case False
      with Cons.prems i Some
      have "apply_loop blend e ctrl (Suc i) rest acc
              (cmds @ [(vid, max (get_speed (vehicles e) vid + a * sim_step e) 0, 1)])
            = Inr (acc', cmds')"
        by (simp add: Let_def split: if_splits)
      from Cons.IH [OF this] Some False here show ?thesis
        by (simp add: dr del: One_nat_def)
    qed
  qed
qed

text \<open>
  C4: for a vehicle at index \<open>i\<close> with a non-None action \<open>a\<close>, the action applied (the
  value left in \<open>acc[i]\<close>, from which the target velocity is computed) is, when the id
  contains \<open>"rl"\<close>, \<open>0.5 * clip(a, -5, 3) + 0.5 * default_acc\<close> in
  \<open>WaveAttenuationCNNIDMEnv\<close> and \<open>a + default_acc\<close> in \<open>WaveAttenuationCNNPIEnv\<close>, where
  \<open>default_acc\<close> is the output of the fallback controller at index \<open>i\<close>; for any
  other vehicle it is \<open>a\<close> unchanged. The call returns when the action list and the
  controller list cover the vehicle list.
\<close>

theorem fallback_blended_into_action:
  assumes "i < length veh_ids" and "acc ! i = Some a"
  shows "(idm_apply_acceleration e ctrl veh_ids acc = Inr (acc', cmds) \<longrightarrow>
            acc' ! i = Some (if str_in ''rl'' (veh_ids ! i)
                             then 0.5 * np_clip a (- 5) 3 + 0.5 * ctrl ! i else a))
       \<and> (pi_apply_acceleration e ctrl veh_ids acc = Inr (acc', cmds) \<longrightarrow>
            acc' ! i = Some (if str_in ''rl'' (veh_ids ! i) then a + ctrl ! i else a))
       \<and> (length veh_ids \<le> length acc \<and> length veh_ids \<le> length ctrl \<longrightarrow>
            (\<exists>r. idm_apply_acceleration e ctrl veh_ids acc = Inr r)
            \<and> (\<exists>r. pi_apply_acceleration e ctrl veh_ids acc = Inr r))"
proof (intro conjI impI)
  assume "idm_apply_acceleration e ctrl veh_ids acc = Inr (acc', cmds)"
  then have "apply_loop idm_blend e ctrl 0 veh_ids acc [] = Inr (acc', cmds)"
    by (simp add: idm_apply_acceleration_def)
  from apply_loop_acc [OF this] assms
  show "acc' ! i = Some (if str_in ''rl'' (veh_ids ! i)
                         then 0.5 * np_clip a (- 5) 3 + 0.5 * ctrl ! i else a)"
    by (simp add: idm_blend_def)
next
  assume "pi_apply_acceleration e ctrl veh_ids acc = Inr (acc', cmds)"
  then have "apply_loop pi_blend e ctrl 0 veh_ids acc [] = Inr (acc', cmds)"
    by (simp add: pi_apply_acceleration_def)
  from apply_loop_acc [OF this] assms
  show "acc' ! i = Some (if str_in ''rl'' (veh_ids ! i) then a + ctrl ! i else a)"
    by (simp add: pi_blend_def)
next
  assume "length veh_ids \<le> length acc \<and> length veh_ids \<le> length ctrl"
  then show "\<exists>r. idm_apply_acceleration e ctrl veh_ids acc = Inr r"
    using apply_loop_returns [of 0 veh_ids acc ctrl idm_blend e "[]"]
    by (simp add: idm_apply_acceleration_def)
next
  assume "length veh_ids \<le> length acc \<and> length veh_ids \<le> length ctrl"
  then show "\<exists>r. pi_apply_acceleration e ctrl veh_ids acc = Inr r"
    using apply_loop_returns [of 0 veh_ids acc ctrl pi_blend e "[]"]
    by (simp add: pi_apply_acceleration_def)
qed

lemma idm_ring:
  "idm_apply_acceleration ring_env [1, 7] [''rl_0'', ''human_0''] [Some 4, Some 1]
     = Inr ([Some 2, Some 1], [(''rl_0'', 51 / 5, 1), (''human_0'', 51 / 10, 1)])"
  by (simp add: idm_apply_acceleration_def idm_blend_def np_clip_def ring_env_def
      ring_vehicles_def)

lemma pi_ring:
  "pi_apply_acceleration ring_env [1, 7] [''rl_0'', ''human_0''] [Some 4, Some 1]
     = Inr ([Some 5, Some 1], [(''rl_0'', 21 / 2, 1), (''human_0'', 51 / 10, 1)])"
  by (simp add: pi_apply_acceleration_def pi_blend_def ring_env_def ring_vehicles_def)

theorem fallback_blended_into_action_witness:
  "idm_apply_acceleration ring_env [1, 7] [''rl_0'', ''human_0''] [Some 4, Some 1]
     = Inr ([Some 2, Some 1], [(''rl_0'', 51 / 5, 1), (''human_0'', 51 / 10, 1)])
   \<and> [Some 2, Some (1::real)] ! 0 = Some (0.5 * np_clip 4 (- 5) 3 + 0.5 * [1, 7] ! 0)"
  using fallback_blended_into_action
    [of 0 "[''rl_0'', ''human_0'']" "[Some 4, Some 1]" 4 ring_env "[1, 7]"
        "[Some 2, Some 1]" "[(''rl_0'', 51 / 5, 1), (''human_0'', 51 / 10, 1)]"]
    idm_ring
  by simp

text \<open>
  C10: in both overrides, the commands sent to the simulator are, in order, one
  \<open>slowDown(vid, next_vel, 1)\<close> per vehicle with a non-None acceleration, with
  \<open>next_vel = max(speed + acceleration * sim_step, 0)\<close> for the acceleration left in
  \<open>acc[i]\<close>; no target velocity is negative.
\<close>

theorem target_velocity_never_negative:
  assumes "idm_apply_acceleration e ctrl veh_ids acc = Inr (acc', cmds)
         \<or> pi_apply_acceleration e ctrl veh_ids acc = Inr (acc', cmds)"
  shows "cmds = concat (map
             (\<lambda>(vid, a). case a of
                  None \<Rightarrow> []
                | Some a' \<Rightarrow> [(vid, max (get_speed (vehicles e) vid + a' * sim_step e) 0, 1::nat)])
             (zip veh_ids acc'))
       \<and> (\<forall>(vid, next_vel, duration) \<in> set cmds. 0 \<le> next_vel)"
proof -
  obtain blend where "apply_loop blend e ctrl 0 veh_ids acc [] = Inr (acc', cmds)"
    using assms by (auto simp: idm_apply_acceleration_def pi_apply_acceleration_def)
  from apply_loop_cmds [OF this]
  have c: "cmds = concat (map
             (\<lambda>(vid, a). case a of
                  None \<Rightarrow> []
                | Some a' \<Rightarrow> [(vid, max (get_speed (vehicles e) vid + a' * sim_step e) 0, 1::nat)])
             (zip veh_ids acc'))"
    by (simp del: One_nat_def)
  have "\<forall>(vid, next_vel, duration) \<in> set cmds. 0 \<le> next_vel"
    by (subst c) (auto split: option.splits)
  with c show ?thesis by blast
qed

theorem target_velocity_never_negative_witness:
  "pi_apply_acceleration ring_env [1, 7] [''rl_0'', ''human_0''] [Some 4, Some 1]
     = Inr ([Some 5, Some 1], [(''rl_0'', 21 / 2, 1), (''human_0'', 51 / 10, 1)])
   \<and> [(''rl_0'', 21 / 2, 1), (''human_0'', 51 / 10, 1::nat)] = concat (map
             (\<lambda>(vid, a). case a of
                  None \<Rightarrow> []
                | Some a' \<Rightarrow>
                    [(vid, max (get_speed (vehicles ring_env) vid + a' * sim_step ring_env) 0, 1::nat)])
             (zip [''rl_0'', ''human_0''] [Some 5, Some 1]))
   \<and> list_all (\<lambda>(vid, next_vel, duration). 0 \<le> next_vel)
        [(''rl_0'', 21 / 2 :: real, 1), (''human_0'', 51 / 10, 1::nat)]"
  using target_velocity_never_negative
    [of ring_env "[1, 7]" "[''rl_0'', ''human_0'']" "[Some 4, Some 1]"
        "[Some 5, Some 1]" "[(''rl_0'', 21 / 2, 1), (''human_0'', 51 / 10, 1)]"]
    pi_ring
  by simp

subsection \<open>Bookkeeping of the local MLP variant\<close>

lemma enqueue_new_append:
  "\<exists>new. enqueue_new rl_ids queue veh = queue @ new \<and> set new \<subseteq> set rl_ids"
proof (induction rl_ids arbitrary: queue)
  case Nil
  then show ?case by simp
next
  case (Cons v rest)
  obtain new where "enqueue_new rest (if v \<notin> set (queue @ veh) then queue @ [v] else queue) veh
      = (if v \<notin> set (queue @ veh) then queue @ [v] else queue) @ new" "set new \<subseteq> set rest"
    using Cons.IH by blast
  then show ?case
    by (cases "v \<notin> set (queue @ veh)") auto
qed

lemma enqueue_new_distinct:
  "distinct queue \<Longrightarrow> set queue \<inter> set veh = {}
     \<Longrightarrow> distinct (enqueue_new rl_ids queue veh) \<and> set (enqueue_new rl_ids queue veh) \<inter> set veh = {}"
  by (induction rl_ids arbitrary: queue) auto

lemma drop_exited_filter:
  "distinct rest \<Longrightarrow> distinct queue \<Longrightarrow> set rest \<subseteq> set queue
     \<Longrightarrow> drop_exited rest queue rl_ids
         = Inr (filter (\<lambda>x. x \<notin> set rest \<or> x \<in> set rl_ids) queue)"
proof (induction rest arbitrary: queue)
  case Nil
  then show ?case by simp
next
  case (Cons v rest)
  show ?case
  proof (cases "v \<in> set rl_ids")
    case True
    have "filter (\<lambda>x. x \<notin> set rest \<or> x \<in> set rl_ids) queue
        = filter (\<lambda>x. x \<notin> set (v # rest) \<or> x \<in> set rl_ids) queue"
      using True by (intro filter_cong) auto
    with Cons True show ?thesis by simp
  next
    case False
    have rm: "remove1 v queue = filter (\<lambda>x. v \<noteq> x) queue"
      using Cons.prems(2) by (simp add: distinct_remove1_removeAll removeAll_filter_not_eq)
    have sub: "set rest \<subseteq> set (remove1 v queue)"
      using Cons.prems by auto
    have "drop_exited rest (remove1 v queue) rl_ids
        = Inr (filter (\<lambda>x. x \<notin> set rest \<or> x \<in> set rl_ids) (remove1 v queue))"
      using Cons.IH [OF _ _ sub] Cons.prems by simp
    moreover have "filter (\<lambda>x. x \<notin> set rest \<or> x \<in> set rl_ids) (remove1 v queue)
        = filter (\<lambda>x. x \<notin> set (v # rest) \<or> x \<in> set rl_ids) queue"
      unfolding rm filter_filter using False by (intro filter_cong) auto
    ultimately show ?thesis
      using False Cons.prems by (simp add: py_remove_def)
  qed
qed

lemma drop_exited_all:
  "distinct queue \<Longrightarrow> drop_exited queue queue rl_ids = Inr (filter (\<lambda>x. x \<in> set rl_ids) queue)"
proof -
  assume d: "distinct queue"
  have "filter (\<lambda>x. x \<notin> set queue \<or> x \<in> set rl_ids) queue = filter (\<lambda>x. x \<in> set rl_ids) queue"
    by (intro filter_cong) auto
  with drop_exited_filter [OF d d, of rl_ids] show ?thesis by simp
qed

lemma purge_short:
  "length veh \<le> 1 \<Longrightarrow> purge_rl_veh 0 veh rl_ids = Inr (filter (\<lambda>x. x \<in> set rl_ids) veh)"
proof (cases veh)
  case Nil
  then show ?thesis by (simp add: purge_rl_veh.simps [of 0])
next
  case (Cons v rest)
  assume "length veh \<le> 1"
  with Cons have "veh = [v]" by simp
  then show ?thesis
    by (simp add: py_remove_def purge_rl_veh.simps [of 0] purge_rl_veh.simps [of "Suc 0"])
qed

lemma fill_rl_veh_take_drop:
  "fill_rl_veh queue veh n =
     (drop (min (length queue) (n - length veh)) queue,
      veh @ take (min (length queue) (n - length veh)) queue)"
proof (induction queue arbitrary: veh)
  case Nil
  then show ?case by simp
next
  case (Cons v queue)
  show ?case
  proof (cases "length veh < n")
    case True
    then have "min (Suc (length queue)) (n - length veh)
             = Suc (min (length queue) (n - Suc (length veh)))"
      by simp
    with True Cons [of "veh @ [v]"] show ?thesis by simp
  next
    case False
    then show ?thesis by simp
  qed
qed

lemma additional_command_char:
  assumes "bookkeeping_inv s"
  shows "additional_command s rl_ids =
     (let queue2 = filter (\<lambda>x. x \<in> set rl_ids) (enqueue_new rl_ids (rl_queue s) (rl_veh s));
          veh2 = filter (\<lambda>x. x \<in> set rl_ids) (rl_veh s);
          k = min (length queue2) (1 - length veh2)
      in Inr (s\<lparr>rl_queue := drop k queue2, rl_veh := veh2 @ take k queue2\<rparr>,
              leader s @ follower s))"
proof -
  from assms have d: "distinct (enqueue_new rl_ids (rl_queue s) (rl_veh s))"
    using enqueue_new_distinct by (simp add: bookkeeping_inv_def)
  from assms have l: "length (rl_veh s) \<le> 1" and n: "num_rl s = 1"
    by (simp_all add: bookkeeping_inv_def)
  show ?thesis
    by (simp add: additional_command_def Let_def drop_exited_all [OF d] purge_short [OF l]
        fill_rl_veh_take_drop n)
qed

lemma additional_command_inv:
  assumes "bookkeeping_inv s" and "additional_command s rl_ids = Inr (s', obs)"
  shows "bookkeeping_inv s'"
proof -
  let ?q1 = "enqueue_new rl_ids (rl_queue s) (rl_veh s)"
  let ?q2 = "filter (\<lambda>x. x \<in> set rl_ids) ?q1"
  let ?v2 = "filter (\<lambda>x. x \<in> set rl_ids) (rl_veh s)"
  let ?k = "min (length ?q2) (1 - length ?v2)"
  from assms(1) have d1: "distinct ?q1" and dj1: "set ?q1 \<inter> set (rl_veh s) = {}"
    using enqueue_new_distinct by (simp_all add: bookkeeping_inv_def)
  from assms(1) have l: "length (rl_veh s) \<le> 1" and n: "num_rl s = 1"
    by (simp_all add: bookkeeping_inv_def)
  from assms have s': "s' = s\<lparr>rl_queue := drop ?k ?q2, rl_veh := ?v2 @ take ?k ?q2\<rparr>"
    by (simp add: additional_command_char Let_def)
  have lv: "length ?v2 \<le> 1"
    using l by (meson le_trans length_filter_le)
  have d2: "distinct ?q2" using d1 by simp
  have "distinct (take ?k ?q2 @ drop ?k ?q2)" using d2 by simp
  then have dj: "set (take ?k ?q2) \<inter> set (drop ?k ?q2) = {}" and dd: "distinct (drop ?k ?q2)"
    by (simp_all only: distinct_append)
  have "set (drop ?k ?q2) \<subseteq> set ?q1"
    by (meson set_drop_subset filter_is_subset subset_trans)
  with dj1 have "set (drop ?k ?q2) \<inter> set ?v2 = {}" by auto
  with dj have "set (drop ?k ?q2) \<inter> set (?v2 @ take ?k ?q2) = {}" by auto
  moreover have "length (?v2 @ take ?k ?q2) \<le> 1" using lv by simp
  ultimately show ?thesis
    unfolding s' bookkeeping_inv_def using n dd by simp
qed

lemma reachable_inv: "reachable s \<Longrightarrow> bookkeeping_inv s"
proof (induction rule: reachable.induct)
  case (constructed ap s)
  then show ?case
    by (auto simp: mlp_local_init_def bookkeeping_inv_def Let_def split: sum.splits)
next
  case (commanded s rl_ids s' observed)
  then show ?case using additional_command_inv by blast
next
  case (observed s e observation s')
  then show ?case
    by (auto simp: mlp_local_get_state_def bookkeeping_inv_def split: sum.splits prod.splits)
qed

text \<open>
  The in-place removal loop skips the element that follows a removed one; this cannot
  show with a single controlled slot.
\<close>

lemma purge_rl_veh_skips: "purge_rl_veh 0 [''rl_0'', ''rl_1''] [] = Inr [''rl_1'']"
  by (simp add: py_remove_def purge_rl_veh.simps [of 0] purge_rl_veh.simps [of "Suc 0"])

text \<open>
  C3: in every state the local variant can reach, \<open>additional_command\<close> returns, and
  afterwards \<open>rl_veh\<close> has at most \<open>num_rl\<close> elements, each of them an rl vehicle
  currently in the network; a controlled vehicle that is still in the network stays
  controlled, and one that has left is removed, the freed slot going to the head of the
  queue: the oldest queued vehicle still in the network when there is one.
\<close>

theorem additional_command_keeps_controlled_set:
  assumes "reachable s"
  shows "\<exists>s' obs. additional_command s rl_ids = Inr (s', obs)
     \<and> reachable s'
     \<and> num_rl s' = num_rl s
     \<and> length (rl_veh s') \<le> num_rl s'
     \<and> set (rl_veh s') \<subseteq> set rl_ids
     \<and> (\<forall>v \<in> set (rl_veh s). v \<in> set rl_ids \<longrightarrow> rl_veh s' = rl_veh s)
     \<and> (\<forall>v \<in> set (rl_veh s). v \<notin> set rl_ids \<longrightarrow>
           v \<notin> set (rl_veh s')
           \<and> rl_veh s' = take 1 (filter (\<lambda>x. x \<in> set rl_ids)
                                    (enqueue_new rl_ids (rl_queue s) (rl_veh s)))
           \<and> rl_queue s' = drop 1 (filter (\<lambda>x. x \<in> set rl_ids)
                                      (enqueue_new rl_ids (rl_queue s) (rl_veh s)))
           \<and> (filter (\<lambda>x. x \<in> set rl_ids) (rl_queue s) \<noteq> [] \<longrightarrow>
                rl_veh s' = [hd (filter (\<lambda>x. x \<in> set rl_ids) (rl_queue s))]
                \<and> (\<exists>new. rl_queue s'
                      = tl (filter (\<lambda>x. x \<in> set rl_ids) (rl_queue s)) @ new)))"
proof -
  let ?P = "\<lambda>x. x \<in> set rl_ids"
  let ?q1 = "enqueue_new rl_ids (rl_queue s) (rl_veh s)"
  let ?q2 = "filter ?P ?q1"
  let ?v2 = "filter ?P (rl_veh s)"
  let ?k = "min (length ?q2) (1 - length ?v2)"
  define s' where "s' = s\<lparr>rl_queue := drop ?k ?q2, rl_veh := ?v2 @ take ?k ?q2\<rparr>"
  have veh': "rl_veh s' = ?v2 @ take ?k ?q2" and queue': "rl_queue s' = drop ?k ?q2"
    and n': "num_rl s' = num_rl s"
    by (simp_all add: s'_def)
  from assms have inv: "bookkeeping_inv s" by (rule reachable_inv)
  then have n: "num_rl s = 1" and l: "length (rl_veh s) \<le> 1"
    by (simp_all add: bookkeeping_inv_def)
  have run: "additional_command s rl_ids = Inr (s', leader s @ follower s)"
    using additional_command_char [OF inv, of rl_ids] by (simp add: Let_def s'_def)
  have r: "reachable s'"
    using assms run by (rule reachable.commanded)
  have lv: "length ?v2 \<le> 1"
    using l by (meson le_trans length_filter_le)
  have len: "length (rl_veh s') \<le> num_rl s'"
    using lv n by (simp add: veh' n')
  have sub: "set (rl_veh s') \<subseteq> set rl_ids"
    using set_take_subset [of ?k ?q2] by (auto simp: veh')
  have stay: "\<forall>v \<in> set (rl_veh s). v \<in> set rl_ids \<longrightarrow> rl_veh s' = rl_veh s"
  proof (intro ballI impI)
    fix v assume v: "v \<in> set (rl_veh s)" "v \<in> set rl_ids"
    with l have "rl_veh s = [v]" by (cases "rl_veh s") auto
    with v show "rl_veh s' = rl_veh s" by (simp add: veh')
  qed
  have leave: "\<forall>v \<in> set (rl_veh s). v \<notin> set rl_ids \<longrightarrow>
       v \<notin> set (rl_veh s') \<and> rl_veh s' = take 1 ?q2 \<and> rl_queue s' = drop 1 ?q2
       \<and> (filter ?P (rl_queue s) \<noteq> [] \<longrightarrow>
            rl_veh s' = [hd (filter ?P (rl_queue s))]
            \<and> (\<exists>new. rl_queue s' = tl (filter ?P (rl_queue s)) @ new))"
  proof (intro ballI impI)
    fix v assume v: "v \<in> set (rl_veh s)" "v \<notin> set rl_ids"
    with l have one: "rl_veh s = [v]" by (cases "rl_veh s") auto
    with v have v2: "?v2 = []" by simp
    have k: "take ?k ?q2 = take 1 ?q2" "drop ?k ?q2 = drop 1 ?q2"
      by (cases ?q2; simp add: v2)+
    have veh: "rl_veh s' = take 1 ?q2" and queue: "rl_queue s' = drop 1 ?q2"
      using v2 k by (simp_all add: veh' queue')
    have gone: "v \<notin> set (rl_veh s')"
      using sub v(2) by blast
    obtain new where new: "?q1 = rl_queue s @ new"
      using enqueue_new_append [of rl_ids "rl_queue s" "rl_veh s"] by blast
    have fifo: "rl_veh s' = [hd (filter ?P (rl_queue s))]
        \<and> (\<exists>new. rl_queue s' = tl (filter ?P (rl_queue s)) @ new)"
      if ne: "filter ?P (rl_queue s) \<noteq> []"
    proof -
      from ne obtain w ws where w: "filter ?P (rl_queue s) = w # ws"
        by (cases "filter ?P (rl_queue s)") auto
      have "?q2 = w # ws @ filter ?P new"
        by (simp add: new w)
      then show ?thesis
        unfolding veh queue by (simp add: w)
    qed
    from gone veh queue fifo
    show "v \<notin> set (rl_veh s') \<and> rl_veh s' = take 1 ?q2 \<and> rl_queue s' = drop 1 ?q2
       \<and> (filter ?P (rl_queue s) \<noteq> [] \<longrightarrow>
            rl_veh s' = [hd (filter ?P (rl_queue s))]
            \<and> (\<exists>new. rl_queue s' = tl (filter ?P (rl_queue s)) @ new))"
      by blast
  qed
  from run r n' len sub stay leave show ?thesis by blast
qed

lemma reachable_controlling: "reachable controlling"
proof -
  let ?s0 = "\<lparr>num_rl = 1, rl_queue = [], rl_veh = [], leader = [], follower = []\<rparr>"
  have "mlp_local_init (map_of ADDITIONAL_ENV_PARAMS) = Inr ?s0"
    by (simp add: mlp_local_init_def init_def ADDITIONAL_ENV_PARAMS_def dom_def)
  then have "reachable ?s0" by (rule reachable.constructed)
  moreover have "additional_command ?s0 [''rl_0'', ''rl_1''] = Inr (controlling, [])"
    by (simp add: additional_command_def py_remove_def controlling_def
        purge_rl_veh.simps [of 0])
  ultimately show ?thesis by (rule reachable.commanded)
qed

theorem additional_command_keeps_controlled_set_witness:
  "reachable controlling
   \<and> (\<exists>s' obs. additional_command controlling [''rl_1''] = Inr (s', obs)
        \<and> length (rl_veh s') \<le> num_rl s'
        \<and> rl_veh s' = [''rl_1''] \<and> rl_queue s' = [])"
proof -
  from additional_command_keeps_controlled_set [OF reachable_controlling, of "[''rl_1'']"]
  obtain s' obs where "additional_command controlling [''rl_1''] = Inr (s', obs)"
    "length (rl_veh s') \<le> num_rl s'"
    "\<forall>v \<in> set (rl_veh controlling). v \<notin> set [''rl_1''] \<longrightarrow>
       (filter (\<lambda>x. x \<in> set [''rl_1'']) (rl_queue controlling) \<noteq> [] \<longrightarrow>
          rl_veh s' = [hd (filter (\<lambda>x. x \<in> set [''rl_1'']) (rl_queue controlling))]
          \<and> (\<exists>new. rl_queue s' = tl (filter (\<lambda>x. x \<in> set [''rl_1'']) (rl_queue controlling)) @ new))
       \<and> rl_queue s' = drop 1 (filter (\<lambda>x. x \<in> set [''rl_1''])
            (enqueue_new [''rl_1''] (rl_queue controlling) (rl_veh controlling)))"
    by blast
  then show ?thesis
    using reachable_controlling by (auto simp: controlling_def)
qed

end
